theory Spec2Isabelle
  imports Main "HOL-Library.Sublist"
begin

section \<open>Text\<close>

text \<open>
  A Python \<open>str\<close> is modelled as a \<open>string\<close> with one \<open>char\<close> per code point, so the
  model covers the texts whose code points are below 256. \<open>length\<close> and \<open>take\<close> then
  count what Python's \<open>len\<close> and slicing count.
\<close>

definition isspace :: "char \<Rightarrow> bool" where
  \<comment> \<open>\<open>str.isspace\<close> on one character: the code points 9 to 13, 28 to 32, 133 and 160.\<close>
  "isspace c = (of_char c \<in> {9, 10, 11, 12, 13, 28, 29, 30, 31, 32, 133, 160 :: nat})"

definition strip :: "string \<Rightarrow> string" where
  \<comment> \<open>\<open>s.strip()\<close>: whitespace removed from both ends.\<close>
  "strip s = rev (dropWhile isspace (rev (dropWhile isspace s)))"

function replace :: "string \<Rightarrow> string \<Rightarrow> string \<Rightarrow> string" where
  \<comment> \<open>\<open>s.replace(old, new)\<close>: the occurrences of \<open>old\<close> are found from the left and do
      not overlap; an empty \<open>old\<close> matches before every character and at the end.\<close>
  "replace old new [] = (if old = [] then new else [])"
| "replace old new (c # cs) =
     (if old = [] then new @ c # replace old new cs
      else if prefix old (c # cs) then new @ replace old new (drop (length old) (c # cs))
      else c # replace old new cs)"
  by pat_completeness auto
termination
  by (relation "measure (\<lambda>(old, new, s). length s)") auto

definition fence_json :: string where
  "fence_json = ''```json''"

definition fence :: string where
  "fence = ''```''"

definition clean_json_string :: "string \<Rightarrow> string" where
  \<comment> \<open>\<open>text.replace("```json", "").replace("```", "").strip()\<close>\<close>
  "clean_json_string text = strip (replace fence [] (replace fence_json [] text))"

definition fenced :: "string \<Rightarrow> string \<Rightarrow> string" where
  \<comment> \<open>A reply wrapped in a markdown code fence: the opening line (three backticks and
      an optional info string), the reply on lines of its own, the closing line.\<close>
  "fenced opening reply = opening @ CHR 0x0A # reply @ CHR 0x0A # fence"

section \<open>Parsed JSON and data frames\<close>

datatype pyfloat = Finite int int | NaN | PosInf | NegInf
  \<comment> \<open>A Python \<open>float\<close>: \<open>Finite m e\<close> stands for \<open>m * 2 ^ e\<close>. Floats are only carried
      from the parser to the cells, never computed with.\<close>

datatype json =
    JNull
  | JBool bool
  | JInt int
  | JFloat pyfloat
  | JString string
  | JArray "json list"
  | JObject "(string \<times> json) list"
  \<comment> \<open>What \<open>json.loads\<close> returns. \<open>JObject\<close> holds the items of a \<open>dict\<close> in insertion
      order, so its keys are distinct.\<close>

record dataframe =
  columns :: "string list"
  records :: "json option list list"
  \<comment> \<open>One row per record, one cell per column; \<open>None\<close> is the missing value (NaN).
      The dtype inference of pandas is not modelled: a cell holds the parsed value.\<close>

definition empty_frame :: dataframe where
  \<comment> \<open>\<open>pd.DataFrame()\<close>\<close>
  "empty_frame = \<lparr>columns = [], records = []\<rparr>"

definition empty :: "dataframe \<Rightarrow> bool" where
  \<comment> \<open>\<open>df.empty\<close>: some axis has length 0.\<close>
  "empty d = (columns d = [] \<or> records d = [])"

fun uniques :: "string list \<Rightarrow> string list \<Rightarrow> string list" where
  \<comment> \<open>The loop pandas runs over the keys of all records: a key not seen before is
      appended.\<close>
  "uniques seen [] = seen"
| "uniques seen (k # ks) = (if k \<in> set seen then uniques seen ks else uniques (seen @ [k]) ks)"

definition is_object :: "json \<Rightarrow> bool" where
  "is_object j = (case j of JObject kv \<Rightarrow> True | _ \<Rightarrow> False)"

definition items :: "json \<Rightarrow> (string \<times> json) list" where
  "items j = (case j of JObject kv \<Rightarrow> kv | _ \<Rightarrow> [])"

definition keys :: "json \<Rightarrow> string list" where
  "keys j = map fst (items j)"

definition DataFrame :: "(json \<Rightarrow> string + dataframe) \<Rightarrow> json \<Rightarrow> string + dataframe" where
  \<comment> \<open>\<open>pd.DataFrame(data)\<close>, which may raise (\<open>Inl\<close>). An empty list gives the empty
      frame; a list of dicts gives the union of the keys in first-seen order as columns
      and one row per dict, a missing key giving a missing cell. Every other shape of
      \<open>data\<close> is left to the parameter \<open>other\<close>.\<close>
  "DataFrame other data =
     (case data of
        JArray xs \<Rightarrow>
          (if xs = [] then Inr empty_frame
           else if list_all is_object xs then
             (let cols = uniques [] (concat (map keys xs))
              in Inr \<lparr>columns = cols, records = map (\<lambda>x. map (map_of (items x)) cols) xs\<rparr>)
           else other data)
      | _ \<Rightarrow> other data)"

section \<open>The extraction pipeline\<close>

datatype image = Image string
  \<comment> \<open>An opened image, standing for its pixels by the bytes it was read from.\<close>

datatype part = Text string | Picture image
  \<comment> \<open>One part of a request to the model.\<close>

record response =
  status_code :: nat
  content :: string

record upload =
  file_name :: string
  file_bytes :: string

record externals =
  generate_content :: "part list \<Rightarrow> string + string"
  json_loads :: "string \<Rightarrow> string + json"
  frame_of_other :: "json \<Rightarrow> string + dataframe"
  requests_get :: "string \<Rightarrow> string + response"
  get_text :: "string \<Rightarrow> string + string"
  read_csv :: "upload \<Rightarrow> string + dataframe"
  read_excel :: "upload \<Rightarrow> string + dataframe"
  image_open :: "upload \<Rightarrow> string + image"
  \<comment> \<open>The libraries and services the program calls, as parameters. \<open>Inl e\<close> is an
      exception raised by the call, \<open>e\<close> the text \<open>str(e)\<close>.
      \<open>generate_content parts\<close> is \<open>model.generate_content(parts).text\<close>;
      \<open>get_text c\<close> is \<open>BeautifulSoup(c, 'html.parser').get_text(separator=' ', strip=True)\<close>;
      \<open>frame_of_other\<close> is \<open>pd.DataFrame\<close> on the shapes \<open>DataFrame\<close> does not model.\<close>

definition system_prompt :: string where
  "system_prompt =
     ''\<newline>    You are a Data Extraction Engine. \<newline>'' @
     ''    Analyze the provided input and extract structured data.\<newline>'' @
     ''    Output ONLY valid JSON. \<newline>'' @
     ''    Format: [{\"Column1\": \"Value\", \"Column2\": 10, ...}]\<newline>'' @
     ''    If dates exist, format as YYYY-MM-DD.\<newline>'' @
     ''    Ensure numeric fields are numbers, not strings.\<newline>    ''"

record extraction =
  frame :: dataframe
  errors_shown :: "string list"
  requests_sent :: "part list list"
  \<comment> \<open>What a call of \<open>gemini_data_extractor\<close> returns (\<open>frame\<close>) and what it does besides:
      the messages passed to \<open>st.error\<close> and the requests sent to the model.\<close>

definition failed :: "part list \<Rightarrow> string \<Rightarrow> extraction" where
  \<comment> \<open>The \<open>except Exception as e\<close> branch.\<close>
  "failed req e =
     \<lparr>frame = empty_frame, errors_shown = [''AI Extraction Failed: '' @ e], requests_sent = [req]\<rparr>"

definition gemini_data_extractor :: "externals \<Rightarrow> string \<Rightarrow> part \<Rightarrow> extraction" where
  "gemini_data_extractor ext prompt content_part =
     (let req = [Text system_prompt, Text prompt, content_part] in
      case generate_content ext req of
        Inl e \<Rightarrow> failed req e
      | Inr reply \<Rightarrow>
          (case json_loads ext (clean_json_string reply) of
             Inl e \<Rightarrow> failed req e
           | Inr data \<Rightarrow>
               (case DataFrame (frame_of_other ext) data of
                  Inl e \<Rightarrow> failed req e
                | Inr df \<Rightarrow> \<lparr>frame = df, errors_shown = [], requests_sent = [req]\<rparr>)))"

definition scrape_url :: "externals \<Rightarrow> string \<Rightarrow> string" where
  "scrape_url ext url =
     (case requests_get ext url of
        Inl e \<Rightarrow> ''Error scraping URL: '' @ e
      | Inr page \<Rightarrow>
          (case get_text ext (content page) of
             Inl e \<Rightarrow> ''Error scraping URL: '' @ e
           | Inr t \<Rightarrow> take 10000 t))"

section \<open>The script: API setup, sidebar, dashboard guard\<close>




datatype input_mode = UploadFile | ImageAnalysis | WebsiteURL | VideoIntelligence

record widgets =
  input_mode :: input_mode
  uploaded_file :: "upload option"
  button :: bool
  url_input :: string
  \<comment> \<open>What the widgets of the sidebar return in one run of the script.\<close>

record sidebar_out =
  df :: "dataframe option"
  shown :: "string list"
  sent :: "part list list"

definition no_data :: sidebar_out where
  "no_data = \<lparr>df = None, shown = [], sent = []\<rparr>"

definition image_prompt :: string where
  "image_prompt = ''Extract all tabular data visible in this image. Focus on items, quantities, prices, categories, or dates.''"

definition url_prompt :: string where
  "url_prompt = ''Analyze this website text. Extract any lists, tables, or product data into a structured JSON.''"

definition extracted :: "extraction \<Rightarrow> sidebar_out" where
  "extracted r = \<lparr>df = Some (frame r), shown = errors_shown r, sent = requests_sent r\<rparr>"

definition sidebar :: "externals \<Rightarrow> widgets \<Rightarrow> string + sidebar_out" where
  \<comment> \<open>The sidebar; \<open>Inl e\<close> is an exception no handler of the script catches.\<close>
  "sidebar ext w =
     (case input_mode w of
        UploadFile \<Rightarrow>
          (case uploaded_file w of
             None \<Rightarrow> Inr no_data
           | Some f \<Rightarrow>
               (case (if suffix ''.csv'' (file_name f) then read_csv ext f else read_excel ext f) of
                  Inl e \<Rightarrow> Inl e
                | Inr d \<Rightarrow> Inr \<lparr>df = Some d, shown = [], sent = []\<rparr>))
      | ImageAnalysis \<Rightarrow>
          (case uploaded_file w of
             None \<Rightarrow> Inr no_data
           | Some f \<Rightarrow>
               (if button w then
                  (case image_open ext f of
                     Inl e \<Rightarrow> Inl e
                   | Inr img \<Rightarrow> Inr (extracted (gemini_data_extractor ext image_prompt (Picture img))))
                else Inr no_data))
      | WebsiteURL \<Rightarrow>
          (if url_input w \<noteq> [] \<and> button w then
             Inr (extracted (gemini_data_extractor ext url_prompt (Text (scrape_url ext (url_input w)))))
           else Inr no_data)
      | VideoIntelligence \<Rightarrow> Inr no_data)"

datatype view = Dashboard dataframe | Landing

definition dashboard :: "dataframe option \<Rightarrow> view" where
  \<comment> \<open>\<open>if df is not None and not df.empty\<close>\<close>
  "dashboard d = (case d of None \<Rightarrow> Landing | Some t \<Rightarrow> if empty t then Landing else Dashboard t)"



section \<open>Notions of the specification\<close>

fun first_seen :: "string list \<Rightarrow> string list" where
  \<comment> \<open>First-seen order: every key once, at the place of its first occurrence.\<close>
  "first_seen [] = []"
| "first_seen (k # ks) = k # filter (\<lambda>x. x \<noteq> k) (first_seen ks)"


definition fetch_fails :: "string + response \<Rightarrow> bool" where
  \<comment> \<open>A failed fetch in the words of the specification: a network failure (the call
      raises) or an HTTP failure (an error status).\<close>
  "fetch_fails r = (case r of Inl e \<Rightarrow> True | Inr page \<Rightarrow> 400 \<le> status_code page)"

fun joined :: "string \<Rightarrow> string list \<Rightarrow> string" where
  \<comment> \<open>The pieces with the separator between them: \<open>sep.join(pieces)\<close>.\<close>
  "joined sep [] = []"
| "joined sep [p] = p"
| "joined sep (p # q # ps) = p @ sep @ joined sep (q # ps)"


section \<open>Sample collaborators\<close>

text \<open>
  Concrete collaborators at which the theorems below are instantiated. Each stand-in for
  a library is specified on the inputs it lists, where it returns what the library
  returns, and is left unspecified (\<open>undefined\<close>) everywhere else.
\<close>

definition two_records :: string where
  "two_records = ''[{\"A\":1},{\"A\":2,\"B\":\"x\"}]''"

definition sample_loads :: "string \<Rightarrow> string + json" where
  \<comment> \<open>\<open>json.loads\<close> on seven texts.\<close>
  "sample_loads s =
     (if s = ''[]'' then Inr (JArray [])
      else if s = two_records then
        Inr (JArray [JObject [(''A'', JInt 1)], JObject [(''A'', JInt 2), (''B'', JString ''x'')]])
      else if s = ''[{\"A\":1,\"B\":2},{\"B\":3,\"A\":4}]'' then
        Inr (JArray [JObject [(''A'', JInt 1), (''B'', JInt 2)], JObject [(''B'', JInt 3), (''A'', JInt 4)]])
      else if s = ''[{\"Item\":\"Coffee\",\"Price\":4.5}]'' then
        Inr (JArray [JObject [(''Item'', JString ''Coffee''), (''Price'', JFloat (Finite 9 (- 1)))]])
      else if s = ''[{\"A\":NaN}]'' then
        Inr (JArray [JObject [(''A'', JFloat NaN)]])
      else if s = ''[{\"A\":1},'' then Inl ''Expecting value: line 1 column 10 (char 9)''
      else if s = ''JSON\<newline>'' @ two_records then Inl ''Expecting value: line 1 column 1 (char 0)''
      else undefined)"

definition receipt :: upload where
  "receipt = \<lparr>file_name = ''receipt.png'', file_bytes = ''(the bytes of a PNG image)''\<rparr>"

definition long_text :: string where
  "long_text = replicate 10001 CHR ''a''"

definition sample_get_text :: "string \<Rightarrow> string + string" where
  \<comment> \<open>\<open>BeautifulSoup(content, 'html.parser').get_text(separator=' ', strip=True)\<close> on
      three bodies: every text node is stripped at its ends, the nodes that are left are
      joined by the separator.\<close>
  "sample_get_text c =
     (if c = [] then Inr []
      else if c = ''<p>a  b</p>'' then Inr ''a  b''
      else if c = ''<p>'' @ long_text @ ''</p>'' then Inr long_text
      else undefined)"

definition sample_ext :: "string \<Rightarrow> externals" where
  \<comment> \<open>A model that answers every request with the given reply, a network that is
      down, and one upload that opens as an image.\<close>
  "sample_ext reply =
     \<lparr>generate_content = (\<lambda>parts. Inr reply),
      json_loads = sample_loads,
      frame_of_other = (\<lambda>data. undefined),
      requests_get = (\<lambda>url. Inl ''Connection refused''),
      get_text = sample_get_text,
      read_csv = (\<lambda>f. undefined),
      read_excel = (\<lambda>f. undefined),
      image_open = (\<lambda>f. if f = receipt then Inr (Image (file_bytes receipt)) else undefined)\<rparr>"

definition not_found_site :: externals where
  \<comment> \<open>A server that answers every GET with status 404 and an empty body.\<close>
  "not_found_site =
     (sample_ext ''[]'')\<lparr>requests_get := (\<lambda>url. Inr \<lparr>status_code = 404, content = []\<rparr>)\<rparr>"



definition url_run :: widgets where
  \<comment> \<open>Website URL: an address is entered and the button is pressed.\<close>
  "url_run = \<lparr>input_mode = WebsiteURL, uploaded_file = None, button = True,
               url_input = ''http://example.com/missing''\<rparr>"



section \<open>Properties of the text operations\<close>

lemma prefix_append_sep:
  assumes "c \<notin> set old"
  shows "prefix old (xs @ c # ys) \<longleftrightarrow> prefix old xs"
proof
  assume p: "prefix old (xs @ c # ys)"
  show "prefix old xs"
  proof (cases "length old \<le> length xs")
    case True
    with p show ?thesis by (metis prefix_length_prefix prefixI)
  next
    case False
    then have "length xs < length old" by simp
    moreover from p have "old = take (length old) (xs @ c # ys)"
      by (metis append_eq_conv_conj prefix_def)
    ultimately have "old ! length xs = c"
      by (metis nth_append_length nth_take)
    with \<open>length xs < length old\<close> assms show ?thesis
      by (metis nth_mem)
  qed
next
  assume "prefix old xs" then show "prefix old (xs @ c # ys)" by (rule prefix_prefix)
qed

lemma replace_sep:
  assumes "old \<noteq> []" "c \<notin> set old"
  shows "replace old new (xs @ c # ys) = replace old new xs @ c # replace old new ys"
  using assms
proof (induction old new xs rule: replace.induct)
  case (1 old new)
  then have "\<not> prefix old (c # ys)"
    by (cases old) auto
  with 1 show ?case by simp
next
  case (2 old new x xs)
  show ?case
  proof (cases "prefix old (x # xs)")
    case True
    then have le: "length old \<le> length (x # xs)" by (rule prefix_length_le)
    from True have p: "prefix old ((x # xs) @ c # ys)" by (rule prefix_prefix)
    from le have d: "drop (length old) ((x # xs) @ c # ys) = drop (length old) (x # xs) @ c # ys"
      by (simp del: append_Cons)
    from "2.IH" "2.prems" True p d show ?thesis by simp
  next
    case False
    with "2.prems" have "\<not> prefix old ((x # xs) @ c # ys)"
      using prefix_append_sep[of c old "x # xs" ys] by simp
    with False "2.IH" "2.prems" show ?thesis by simp
  qed
qed

lemma replace_match:
  "old \<noteq> [] \<Longrightarrow> prefix old s \<Longrightarrow>
     replace old new s = new @ replace old new (drop (length old) s)"
  by (cases s) auto

lemma replace_skip:
  "old \<noteq> [] \<Longrightarrow> \<not> prefix old (c # cs) \<Longrightarrow>
     replace old new (c # cs) = c # replace old new cs"
  by simp

lemma fence_not_Nil: "fence \<noteq> []"
  by (simp add: fence_def)

lemma prefix_fence_Cons:
  "prefix fence (c # cs) \<longleftrightarrow> c = CHR 0x60 \<and> prefix [CHR 0x60, CHR 0x60] cs"
  by (auto simp: fence_def)

lemma replace_fence_Cons_other:
  "c \<noteq> CHR 0x60 \<Longrightarrow> replace fence [] (c # cs) = c # replace fence [] cs"
  by (rule replace_skip [OF fence_not_Nil]) (simp add: prefix_fence_Cons)

lemma replace_fence_no_double:
  assumes "\<not> prefix fence (CHR 0x60 # cs)"
  shows "\<not> prefix [CHR 0x60, CHR 0x60] (replace fence [] cs)"
proof (cases cs)
  case Nil
  then show ?thesis by simp
next
  case (Cons d ds)
  show ?thesis
  proof (cases "d = CHR 0x60")
    case False
    with Cons show ?thesis by (simp add: replace_fence_Cons_other del: replace.simps)
  next
    case True
    show ?thesis
    proof (cases ds)
      case Nil
      with Cons True have "replace fence [] cs = [CHR 0x60]"
        by (simp add: fence_def)
      then show ?thesis by simp
    next
      case (Cons e es)
      with assms \<open>cs = d # ds\<close> True have e: "e \<noteq> CHR 0x60"
        by (auto simp: prefix_fence_Cons)
      with Cons \<open>cs = d # ds\<close> True have "\<not> prefix fence cs"
        by (simp add: prefix_fence_Cons)
      with Cons \<open>cs = d # ds\<close> True
      have "replace fence [] cs = CHR 0x60 # replace fence [] (e # es)"
        using replace_skip [OF fence_not_Nil, of d ds "[]"] by simp
      with e show ?thesis
        by (simp add: replace_fence_Cons_other del: replace.simps)
    qed
  qed
qed

lemma replace_fence_no_fence: "\<not> sublist fence (replace fence [] s)"
proof (induction s rule: length_induct)
  case (1 s)
  show ?case
  proof (cases s)
    case Nil
    then show ?thesis by (simp add: fence_def)
  next
    case (Cons c cs)
    show ?thesis
    proof (cases "prefix fence s")
      case True
      then have "replace fence [] s = replace fence [] (drop (length fence) s)"
        using replace_match [OF fence_not_Nil, of s "[]"] by simp
      moreover have "length (drop (length fence) s) < length s"
        using Cons by (simp add: fence_def)
      ultimately show ?thesis using 1 by simp
    next
      case False
      with Cons have eq: "replace fence [] s = c # replace fence [] cs"
        using replace_skip [OF fence_not_Nil, of c cs "[]"] by simp
      from 1 Cons have ih: "\<not> sublist fence (replace fence [] cs)" by simp
      have np: "\<not> prefix fence (c # replace fence [] cs)"
      proof (cases "c = CHR 0x60")
        case True
        with False Cons have "\<not> prefix [CHR 0x60, CHR 0x60] (replace fence [] cs)"
          using replace_fence_no_double by simp
        then show ?thesis by (simp only: prefix_fence_Cons) simp
      next
        case False
        then show ?thesis by (simp only: prefix_fence_Cons) simp
      qed
      have "sublist fence (c # replace fence [] cs) \<longleftrightarrow>
              prefix fence (c # replace fence [] cs) \<or> sublist fence (replace fence [] cs)"
        by (rule sublist_Cons_right)
      with ih np eq show ?thesis by simp
    qed
  qed
qed

lemma replace_absent:
  assumes "old \<noteq> []" "\<not> sublist old s"
  shows "replace old new s = s"
  using assms
proof (induction s)
  case Nil
  then show ?case by simp
next
  case (Cons c cs)
  from Cons.prems(2) have np: "\<not> prefix old (c # cs)"
    by (auto dest: prefix_imp_sublist)
  from Cons.prems(2) have "\<not> sublist old cs"
    by (simp add: sublist_Cons_right)
  with Cons.IH Cons.prems(1) have "replace old new cs = cs" by simp
  moreover have "replace old new (c # cs) = c # replace old new cs"
    by (rule replace_skip [OF Cons.prems(1) np])
  ultimately show ?case by (simp only:)
qed

lemma sublist_fence_json: "sublist fence_json s \<Longrightarrow> sublist fence s"
proof -
  assume a: "sublist fence_json s"
  have "prefix fence fence_json"
    by (simp add: fence_def fence_json_def)
  then have "sublist fence fence_json"
    by (rule prefix_imp_sublist)
  from this a show ?thesis
    by (rule sublist_order.order_trans)
qed

lemma strip_sublist: "sublist (strip s) s"
proof -
  have "suffix (dropWhile isspace s) s"
    by (rule suffix_dropWhile)
  then have a: "sublist (dropWhile isspace s) s"
    by (rule suffix_imp_sublist)
  have "suffix (dropWhile isspace (rev (dropWhile isspace s))) (rev (dropWhile isspace s))"
    by (rule suffix_dropWhile)
  then have "prefix (strip s) (dropWhile isspace s)"
    by (simp add: strip_def suffix_to_prefix)
  then have "sublist (strip s) (dropWhile isspace s)"
    by (rule prefix_imp_sublist)
  from this a show ?thesis
    by (rule sublist_order.order_trans)
qed

lemma dropWhile_rev_spaces:
  assumes "\<forall>c \<in> set b. isspace c"
  shows "dropWhile isspace (rev (t @ b)) = dropWhile isspace (rev t)"
proof -
  have "dropWhile isspace (rev b @ rev t) = dropWhile isspace (rev t)"
    by (rule dropWhile_append2) (use assms in auto)
  then show ?thesis by simp
qed

lemma strip_spaces_around:
  assumes a: "\<forall>c \<in> set a. isspace c" and b: "\<forall>c \<in> set b. isspace c"
  shows "strip (a @ s @ b) = strip s"
proof -
  have l: "dropWhile isspace (a @ s @ b) = dropWhile isspace (s @ b)"
    by (rule dropWhile_append2) (use a in auto)
  show ?thesis
  proof (cases "\<forall>c \<in> set s. isspace c")
    case True
    then have e2: "dropWhile isspace s = []" by simp
    from True b have e1: "dropWhile isspace (s @ b) = []" by auto
    show ?thesis by (simp only: strip_def l e1 e2)
  next
    case False
    then have "dropWhile isspace (s @ b) = dropWhile isspace s @ b"
      by (auto simp: dropWhile_append1)
    then show ?thesis
      by (simp only: strip_def l dropWhile_rev_spaces [OF b])
  qed
qed

lemma strip_idem: "strip (strip s) = strip s"
proof -
  define t where "t = dropWhile isspace s"
  define u where "u = rev (dropWhile isspace (rev t))"
  have su: "strip s = u" by (simp add: strip_def t_def u_def)
  have t0: "t = [] \<or> \<not> isspace (hd t)"
    unfolding t_def by (metis hd_dropWhile)
  have ru: "rev u = dropWhile isspace (rev t)" by (simp add: u_def)
  then have ru0: "rev u = [] \<or> \<not> isspace (hd (rev u))"
    by (metis hd_dropWhile)
  have pre: "prefix u t"
    unfolding u_def by (metis suffix_dropWhile suffix_to_prefix rev_rev_ident)
  have u0: "u = [] \<or> \<not> isspace (hd u)"
  proof (cases u)
    case Nil then show ?thesis by simp
  next
    case (Cons x xs)
    with pre obtain ts where "t = x # ts" by (auto simp: prefix_def)
    with t0 Cons show ?thesis by simp
  qed
  then have d1: "dropWhile isspace u = u"
    by (cases u) auto
  from ru0 have d2: "dropWhile isspace (rev u) = rev u"
    by (cases "rev u") auto
  have "strip u = u" by (simp add: strip_def d1 d2)
  with su show ?thesis by simp
qed

lemma isspace_newline: "isspace (CHR 0x0A)"
  by (simp add: isspace_def)

lemma fence_json_not_Nil: "fence_json \<noteq> []"
  by (simp add: fence_json_def)

lemma newline_notin_fence: "CHR 0x0A \<notin> set fence"
  by (simp add: fence_def)

lemma newline_notin_fence_json: "CHR 0x0A \<notin> set fence_json"
  by (simp add: fence_json_def)

lemma replace_fence_json_fence: "replace fence_json [] fence = fence"
  by (simp add: fence_json_def fence_def)

lemma replace_fence_fence: "replace fence [] fence = []"
  by (simp add: fence_def)

lemma replace_fence_Nil: "replace fence [] [] = []"
  by simp

lemma replace_fence_json_self: "replace fence_json [] fence_json = []"
  by (simp add: fence_json_def)

lemma replace_fence_json_fenced:
  "replace fence_json [] (fenced fence_json r) = CHR 0x0A # replace fence_json [] r @ CHR 0x0A # fence"
proof -
  have "replace fence_json [] (fence_json @ CHR 0x0A # (r @ CHR 0x0A # fence))
          = replace fence_json [] fence_json @ CHR 0x0A # replace fence_json [] (r @ CHR 0x0A # fence)"
    by (rule replace_sep [OF fence_json_not_Nil newline_notin_fence_json])
  also have "replace fence_json [] (r @ CHR 0x0A # fence)
          = replace fence_json [] r @ CHR 0x0A # replace fence_json [] fence"
    by (rule replace_sep [OF fence_json_not_Nil newline_notin_fence_json])
  finally show ?thesis
    by (simp only: fenced_def replace_fence_json_self replace_fence_json_fence append_Nil)
qed

lemma replace_fence_json_fenced_plain:
  "replace fence_json [] (fenced fence r) = fence @ CHR 0x0A # replace fence_json [] r @ CHR 0x0A # fence"
proof -
  have "replace fence_json [] (fence @ CHR 0x0A # (r @ CHR 0x0A # fence))
          = replace fence_json [] fence @ CHR 0x0A # replace fence_json [] (r @ CHR 0x0A # fence)"
    by (rule replace_sep [OF fence_json_not_Nil newline_notin_fence_json])
  also have "replace fence_json [] (r @ CHR 0x0A # fence)
          = replace fence_json [] r @ CHR 0x0A # replace fence_json [] fence"
    by (rule replace_sep [OF fence_json_not_Nil newline_notin_fence_json])
  finally show ?thesis
    by (simp only: fenced_def replace_fence_json_fence)
qed

lemma replace_fence_between_newlines:
  "replace fence [] (a @ CHR 0x0A # x @ CHR 0x0A # fence) = replace fence [] a @ CHR 0x0A # replace fence [] x @ [CHR 0x0A]"
proof -
  have "replace fence [] (a @ CHR 0x0A # (x @ CHR 0x0A # fence))
          = replace fence [] a @ CHR 0x0A # replace fence [] (x @ CHR 0x0A # fence)"
    by (rule replace_sep [OF fence_not_Nil newline_notin_fence])
  also have "replace fence [] (x @ CHR 0x0A # fence)
          = replace fence [] x @ CHR 0x0A # replace fence [] fence"
    by (rule replace_sep [OF fence_not_Nil newline_notin_fence])
  finally show ?thesis
    by (simp only: replace_fence_fence)
qed

lemma strip_between_newlines: "strip (CHR 0x0A # x @ [CHR 0x0A]) = strip x"
  using strip_spaces_around [of "[CHR 0x0A]" "[CHR 0x0A]" x]
  by (simp add: isspace_newline)

lemma clean_fenced_json: "clean_json_string (fenced fence_json r) = clean_json_string r"
proof -
  have "replace fence [] (replace fence_json [] (fenced fence_json r))
          = CHR 0x0A # replace fence [] (replace fence_json [] r) @ [CHR 0x0A]"
    using replace_fence_between_newlines [of "[]" "replace fence_json [] r"]
    by (simp add: replace_fence_json_fenced replace_fence_Nil del: replace.simps)
  then show ?thesis
    by (simp only: clean_json_string_def strip_between_newlines)
qed

lemma clean_fenced_plain: "clean_json_string (fenced fence r) = clean_json_string r"
proof -
  have "replace fence [] (replace fence_json [] (fenced fence r))
          = CHR 0x0A # replace fence [] (replace fence_json [] r) @ [CHR 0x0A]"
    using replace_fence_between_newlines [of fence "replace fence_json [] r"]
    by (simp add: replace_fence_json_fenced_plain replace_fence_fence del: replace.simps)
  then show ?thesis
    by (simp only: clean_json_string_def strip_between_newlines)
qed

lemma clean_no_fence: "\<not> sublist fence (clean_json_string s)"
proof
  assume "sublist fence (clean_json_string s)"
  moreover have "sublist (clean_json_string s) (replace fence [] (replace fence_json [] s))"
    unfolding clean_json_string_def by (rule strip_sublist)
  ultimately have "sublist fence (replace fence [] (replace fence_json [] s))"
    by (rule sublist_order.order_trans)
  then show False
    using replace_fence_no_fence by blast
qed

lemma clean_idem: "clean_json_string (clean_json_string s) = clean_json_string s"
proof -
  let ?c = "clean_json_string s"
  have nf: "\<not> sublist fence ?c" by (rule clean_no_fence)
  then have nj: "\<not> sublist fence_json ?c" using sublist_fence_json by blast
  have "replace fence_json [] ?c = ?c"
    by (rule replace_absent [OF fence_json_not_Nil nj])
  moreover have "replace fence [] ?c = ?c"
    by (rule replace_absent [OF fence_not_Nil nf])
  moreover have "strip ?c = ?c"
    unfolding clean_json_string_def by (rule strip_idem)
  ultimately show ?thesis
    by (simp add: clean_json_string_def [of ?c])
qed

section \<open>Columns and records of the extracted table\<close>

lemma set_first_seen: "set (first_seen ks) = set ks"
  by (induction ks) auto

lemma distinct_first_seen: "distinct (first_seen ks)"
  by (induction ks) (auto simp: set_first_seen)

lemma filter_first_seen: "filter P (first_seen ks) = first_seen (filter P ks)"
proof (induction ks)
  case Nil
  then show ?case by simp
next
  case (Cons k ks)
  show ?case
  proof (cases "P k")
    case True
    have "filter P (filter (\<lambda>x. x \<noteq> k) (first_seen ks))
            = filter (\<lambda>x. x \<noteq> k) (filter P (first_seen ks))"
      by (simp add: conj_commute)
    with True Cons show ?thesis by simp
  next
    case False
    then have "k \<notin> set (first_seen (filter P ks))"
      by (simp add: set_first_seen)
    then have "filter (\<lambda>x. x \<noteq> k) (first_seen (filter P ks)) = first_seen (filter P ks)"
      by (auto simp: filter_id_conv)
    moreover have "filter P (filter (\<lambda>x. x \<noteq> k) (first_seen ks))
            = filter (\<lambda>x. x \<noteq> k) (filter P (first_seen ks))"
      by (simp add: conj_commute)
    ultimately show ?thesis using False Cons by simp
  qed
qed

lemma uniques_first_seen:
  "uniques seen ks = seen @ first_seen (filter (\<lambda>k. k \<notin> set seen) ks)"
proof (induction ks arbitrary: seen)
  case Nil
  then show ?case by simp
next
  case (Cons k ks)
  show ?case
  proof (cases "k \<in> set seen")
    case True
    with Cons show ?thesis by simp
  next
    case False
    have "filter (\<lambda>x. x \<noteq> k) (first_seen (filter (\<lambda>x. x \<notin> set seen) ks))
            = first_seen (filter (\<lambda>x. x \<notin> set (seen @ [k])) ks)"
      by (simp add: filter_first_seen conj_commute)
    with False Cons [of "seen @ [k]"] show ?thesis by simp
  qed
qed

lemma uniques_Nil_first_seen: "uniques [] ks = first_seen ks"
  by (simp add: uniques_first_seen)

lemma uniques_absorb: "set ks \<subseteq> set seen \<Longrightarrow> uniques seen ks = seen"
  by (induction ks) auto

lemma uniques_fresh:
  "distinct ks \<Longrightarrow> set ks \<inter> set seen = {} \<Longrightarrow> uniques seen ks = seen @ ks"
  by (induction ks arbitrary: seen) auto

lemma uniques_append: "uniques seen (a @ b) = uniques (uniques seen a) b"
  by (induction a arbitrary: seen) auto

lemma uniques_same_keys:
  assumes "distinct a" "set b \<subseteq> set a"
  shows "uniques [] (a @ b) = a"
proof -
  from assms(1) have "uniques [] a = a"
    using uniques_fresh [of a "[]"] by simp
  with assms(2) show ?thesis
    by (simp add: uniques_append uniques_absorb)
qed

lemma clean_without_fence:
  assumes "\<not> sublist fence r"
  shows "clean_json_string r = strip r"
proof -
  from assms have "\<not> sublist fence_json r"
    using sublist_fence_json by blast
  then have "replace fence_json [] r = r"
    by (rule replace_absent [OF fence_json_not_Nil])
  moreover from assms have "replace fence [] r = r"
    by (rule replace_absent [OF fence_not_Nil])
  ultimately show ?thesis
    by (simp only: clean_json_string_def)
qed

lemma extractor_depends_on_cleaned_reply:
  assumes "clean_json_string r1 = clean_json_string r2"
  shows "gemini_data_extractor (ext\<lparr>generate_content := (\<lambda>parts. Inr r1)\<rparr>) p c
       = gemini_data_extractor (ext\<lparr>generate_content := (\<lambda>parts. Inr r2)\<rparr>) p c"
  using assms by (simp add: gemini_data_extractor_def Let_def split: sum.splits)

lemma DataFrame_objects:
  assumes "list_all is_object objs"
  shows "DataFrame other (JArray objs) =
           Inr \<lparr>columns = first_seen (concat (map keys objs)),
                records = map (\<lambda>x. map (map_of (items x)) (first_seen (concat (map keys objs)))) objs\<rparr>"
proof (cases "objs = []")
  case True
  then show ?thesis by (simp add: DataFrame_def empty_frame_def)
next
  case False
  with assms show ?thesis
    by (simp add: DataFrame_def Let_def uniques_Nil_first_seen)
qed

lemma extractor_objects:
  assumes "generate_content ext [Text system_prompt, Text p, c] = Inr reply"
      and "json_loads ext (clean_json_string reply) = Inr (JArray objs)"
      and "list_all is_object objs"
  shows "gemini_data_extractor ext p c =
           \<lparr>frame = \<lparr>columns = first_seen (concat (map keys objs)),
                      records = map (\<lambda>x. map (map_of (items x)) (first_seen (concat (map keys objs)))) objs\<rparr>,
            errors_shown = [],
            requests_sent = [[Text system_prompt, Text p, c]]\<rparr>"
  using assms by (simp add: gemini_data_extractor_def DataFrame_objects)

lemma first_seen_consistent:
  assumes "\<forall>y\<in>set xs. set (keys y) = set (keys x)" "distinct (keys x)"
  shows "first_seen (concat (map keys (x # xs))) = keys x"
proof -
  have "set (concat (map keys xs)) \<subseteq> set (keys x)"
    using assms(1) by auto
  then have "uniques [] (keys x @ concat (map keys xs)) = keys x"
    by (rule uniques_same_keys [OF assms(2)])
  then show ?thesis by (simp add: uniques_Nil_first_seen)
qed

lemma sample_ext_reply:
  "(sample_ext r1)\<lparr>generate_content := (\<lambda>parts. Inr r2)\<rparr> = sample_ext r2"
  by (simp add: sample_ext_def)

lemma sample_generates: "generate_content (sample_ext r) parts = Inr r"
  by (simp add: sample_ext_def)

lemma two_records_no_fence: "\<not> sublist fence two_records"
  by (simp add: fence_def two_records_def sublist_Cons_right)

lemma two_records_stripped: "strip two_records = two_records"
  by (simp add: strip_def isspace_def two_records_def)

lemma two_records_loads:
  "json_loads (sample_ext r) two_records =
     Inr (JArray [JObject [(''A'', JInt 1)], JObject [(''A'', JInt 2), (''B'', JString ''x'')]])"
  by (simp add: sample_ext_def sample_loads_def two_records_def)

lemma sample_upper_case_cleaned:
  "clean_json_string (fenced ''```JSON'' two_records) = ''JSON\<newline>'' @ two_records"
  by (simp add: clean_json_string_def fenced_def fence_def fence_json_def strip_def
        isspace_def two_records_def)

lemma upper_case_loads:
  "json_loads (sample_ext r) (''JSON\<newline>'' @ two_records) =
     Inl ''Expecting value: line 1 column 1 (char 0)''"
  by (simp add: sample_ext_def sample_loads_def two_records_def)

lemma sample_two_records_cleaned: "clean_json_string two_records = two_records"
  by (simp only: clean_without_fence [OF two_records_no_fence] two_records_stripped)

lemma sample_two_records_frame:
  "frame (gemini_data_extractor (sample_ext two_records) ''hint'' (Text ''page'')) =
     \<lparr>columns = [''A'', ''B''],
      records = [[Some (JInt 1), None], [Some (JInt 2), Some (JString ''x'')]]\<rparr>"
  by (simp add: gemini_data_extractor_def Let_def sample_generates sample_two_records_cleaned two_records_loads
        DataFrame_def is_object_def keys_def items_def)

section \<open>Fence wrapping\<close>

text \<open>
  Claim C3. A reply wrapped in a markdown code fence whose opening line is \<open>```json\<close> or
  \<open>```\<close> is cleaned to the same text as the reply alone, so the extractor returns the same
  result for both: the same table, the same messages, the same request. Cleaning a second
  time changes nothing. A reply without three backticks in a row is cleaned to its
  \<open>strip\<close>; when it also has no white space at its ends, the cleaned wrapped reply is
  the reply itself, and when it parses to an array of objects, the records of the table are
  the objects of the array, in the order of the array.
\<close>

theorem fence_wrapping_keeps_table:
  assumes "opener = fence_json \<or> opener = fence"
  shows "clean_json_string (fenced opener r) = clean_json_string r
       \<and> clean_json_string (clean_json_string r) = clean_json_string r
       \<and> (\<not> sublist fence r \<longrightarrow> clean_json_string r = strip r)
       \<and> (\<not> sublist fence r \<and> strip r = r \<longrightarrow> clean_json_string (fenced opener r) = r)
       \<and> gemini_data_extractor (ext\<lparr>generate_content := (\<lambda>parts. Inr (fenced opener r))\<rparr>) p c
         = gemini_data_extractor (ext\<lparr>generate_content := (\<lambda>parts. Inr r)\<rparr>) p c
       \<and> (\<not> sublist fence r \<and> strip r = r \<and> json_loads ext r = Inr (JArray objs)
            \<and> list_all is_object objs \<longrightarrow>
          records (frame (gemini_data_extractor
                     (ext\<lparr>generate_content := (\<lambda>parts. Inr (fenced opener r))\<rparr>) p c))
            = map (\<lambda>x. map (map_of (items x)) (first_seen (concat (map keys objs)))) objs)"
proof -
  have w: "clean_json_string (fenced opener r) = clean_json_string r"
    using assms clean_fenced_json clean_fenced_plain by blast
  have i: "clean_json_string (clean_json_string r) = clean_json_string r"
    by (rule clean_idem)
  have s: "\<not> sublist fence r \<longrightarrow> clean_json_string r = strip r"
    using clean_without_fence by blast
  have u: "\<not> sublist fence r \<and> strip r = r \<longrightarrow> clean_json_string (fenced opener r) = r"
    using w s by simp
  have e: "gemini_data_extractor (ext\<lparr>generate_content := (\<lambda>parts. Inr (fenced opener r))\<rparr>) p c
         = gemini_data_extractor (ext\<lparr>generate_content := (\<lambda>parts. Inr r)\<rparr>) p c"
    using w by (rule extractor_depends_on_cleaned_reply)
  have o: "\<not> sublist fence r \<and> strip r = r \<and> json_loads ext r = Inr (JArray objs)
            \<and> list_all is_object objs \<longrightarrow>
          records (frame (gemini_data_extractor
                     (ext\<lparr>generate_content := (\<lambda>parts. Inr (fenced opener r))\<rparr>) p c))
            = map (\<lambda>x. map (map_of (items x)) (first_seen (concat (map keys objs)))) objs"
  proof
    assume a: "\<not> sublist fence r \<and> strip r = r \<and> json_loads ext r = Inr (JArray objs)
            \<and> list_all is_object objs"
    let ?ext = "ext\<lparr>generate_content := (\<lambda>parts. Inr (fenced opener r))\<rparr>"
    from a u have c: "clean_json_string (fenced opener r) = r" by blast
    have g: "generate_content ?ext [Text system_prompt, Text p, c] = Inr (fenced opener r)"
      by simp
    have l: "json_loads ?ext (clean_json_string (fenced opener r)) = Inr (JArray objs)"
      using a c by simp
    from a have "list_all is_object objs" by blast
    with g l have "gemini_data_extractor ?ext p c =
           \<lparr>frame = \<lparr>columns = first_seen (concat (map keys objs)),
                      records = map (\<lambda>x. map (map_of (items x)) (first_seen (concat (map keys objs)))) objs\<rparr>,
            errors_shown = [],
            requests_sent = [[Text system_prompt, Text p, c]]\<rparr>"
      by (rule extractor_objects)
    then show "records (frame (gemini_data_extractor ?ext p c))
            = map (\<lambda>x. map (map_of (items x)) (first_seen (concat (map keys objs)))) objs"
      by simp
  qed
  from w i s u e o show ?thesis by blast
qed

theorem fence_wrapping_keeps_table_witness:
  "clean_json_string (fenced fence_json two_records) = two_records
   \<and> clean_json_string (fenced fence two_records) = two_records
   \<and> records (frame (gemini_data_extractor (sample_ext (fenced fence_json two_records)) ''hint'' (Text ''page'')))
       = [[Some (JInt 1), None], [Some (JInt 2), Some (JString ''x'')]]
   \<and> records (frame (gemini_data_extractor (sample_ext (fenced fence two_records)) ''hint'' (Text ''page'')))
       = [[Some (JInt 1), None], [Some (JInt 2), Some (JString ''x'')]]"
proof -
  let ?objs = "[JObject [(''A'', JInt 1)], JObject [(''A'', JInt 2), (''B'', JString ''x'')]]"
  have ob: "list_all is_object ?objs"
    by (simp add: is_object_def)
  have rows: "map (\<lambda>x. map (map_of (items x)) (first_seen (concat (map keys ?objs)))) ?objs
                = [[Some (JInt 1), None], [Some (JInt 2), Some (JString ''x'')]]"
    by (simp add: keys_def items_def)
  note hyps = two_records_no_fence two_records_stripped two_records_loads [of "[]"] ob
  from fence_wrapping_keeps_table [where opener = fence_json and r = two_records
         and ext = "sample_ext []" and objs = ?objs and p = "''hint''" and c = "Text ''page''",
         unfolded sample_ext_reply] hyps
  have j: "clean_json_string (fenced fence_json two_records) = two_records
     \<and> records (frame (gemini_data_extractor (sample_ext (fenced fence_json two_records)) ''hint'' (Text ''page'')))
       = map (\<lambda>x. map (map_of (items x)) (first_seen (concat (map keys ?objs)))) ?objs"
    by blast
  from fence_wrapping_keeps_table [where opener = fence and r = two_records
         and ext = "sample_ext []" and objs = ?objs and p = "''hint''" and c = "Text ''page''",
         unfolded sample_ext_reply] hyps
  have k: "clean_json_string (fenced fence two_records) = two_records
     \<and> records (frame (gemini_data_extractor (sample_ext (fenced fence two_records)) ''hint'' (Text ''page'')))
       = map (\<lambda>x. map (map_of (items x)) (first_seen (concat (map keys ?objs)))) ?objs"
    by blast
  from j k show ?thesis
    by (simp only: rows)
qed

text \<open>
  Claim C3 as the specification words it fails twice. The cleaned wrapped reply is not
  the unwrapped reply when the reply has white space at an end: \<open>strip\<close> removes it. And a
  fence whose opening line is neither \<open>```json\<close> nor \<open>```\<close> is not removed whole: after
  \<open>```JSON\<close> the info string stays in the text, \<open>json.loads\<close> raises, and the extractor
  returns the empty table where the reply alone gives two records.
\<close>

theorem fence_wrapping_changes_reply:
  "clean_json_string (fenced fence_json '' []'') \<noteq> '' []''
   \<and> frame (gemini_data_extractor (sample_ext (fenced ''```JSON'' two_records)) ''hint'' (Text ''page''))
     \<noteq> frame (gemini_data_extractor (sample_ext two_records) ''hint'' (Text ''page''))"
proof
  show "clean_json_string (fenced fence_json '' []'') \<noteq> '' []''"
    by (simp add: clean_json_string_def fenced_def fence_def fence_json_def strip_def isspace_def)
  have "frame (gemini_data_extractor (sample_ext (fenced ''```JSON'' two_records)) ''hint'' (Text ''page''))
          = empty_frame"
    by (simp add: gemini_data_extractor_def Let_def sample_generates sample_upper_case_cleaned
          upper_case_loads [simplified] failed_def)
  then show "frame (gemini_data_extractor (sample_ext (fenced ''```JSON'' two_records)) ''hint'' (Text ''page''))
     \<noteq> frame (gemini_data_extractor (sample_ext two_records) ''hint'' (Text ''page''))"
    by (simp add: sample_two_records_frame empty_frame_def)
qed

section \<open>The table of an array of objects\<close>

lemma consistent_columns:
  assumes same: "\<forall>x\<in>set objs. \<forall>y\<in>set objs. set (keys x) = set (keys y)"
      and dict: "\<forall>x\<in>set objs. distinct (keys x)"
  shows "first_seen (concat (map keys objs)) = (case objs of [] \<Rightarrow> [] | x # xs \<Rightarrow> keys x)"
proof (cases objs)
  case Nil
  then show ?thesis by simp
next
  case (Cons x xs)
  have "\<forall>y\<in>set xs. set (keys y) = set (keys x)"
  proof
    fix y assume "y \<in> set xs"
    with Cons have "y \<in> set objs" "x \<in> set objs" by simp_all
    with same show "set (keys y) = set (keys x)" by blast
  qed
  moreover from dict Cons have "distinct (keys x)" by simp
  ultimately have "first_seen (concat (map keys (x # xs))) = keys x"
    by (rule first_seen_consistent)
  with Cons show ?thesis by (simp only: list.case)
qed

lemma swapped_loads:
  "json_loads (sample_ext r) ''[{\"A\":1,\"B\":2},{\"B\":3,\"A\":4}]'' =
     Inr (JArray [JObject [(''A'', JInt 1), (''B'', JInt 2)], JObject [(''B'', JInt 3), (''A'', JInt 4)]])"
  by (simp add: sample_ext_def sample_loads_def two_records_def)

lemma swapped_cleaned:
  "clean_json_string ''[{\"A\":1,\"B\":2},{\"B\":3,\"A\":4}]'' = ''[{\"A\":1,\"B\":2},{\"B\":3,\"A\":4}]''"
  by (simp add: clean_json_string_def fence_def fence_json_def strip_def isspace_def)

text \<open>
  Claim C1. When the model answers and the cleaned reply parses to an array of \<open>N\<close>
  objects (\<open>N\<close> may be zero) that all have the same set of keys, the extractor returns
  a table of exactly \<open>N\<close> records, and shows no message. The columns are the keys of the
  first object, in its order (no columns when the array is empty); as a set they are the
  keys of every object. The record of each object holds its values in the order of the
  columns.
\<close>

theorem consistent_records_table:
  assumes gen: "generate_content ext [Text system_prompt, Text p, c] = Inr reply"
      and parse: "json_loads ext (clean_json_string reply) = Inr (JArray objs)"
      and flat: "list_all is_object objs"
      and same: "\<forall>x\<in>set objs. \<forall>y\<in>set objs. set (keys x) = set (keys y)"
      and dict: "\<forall>x\<in>set objs. distinct (keys x)"
  shows "length (records (frame (gemini_data_extractor ext p c))) = length objs
       \<and> columns (frame (gemini_data_extractor ext p c)) = (case objs of [] \<Rightarrow> [] | x # xs \<Rightarrow> keys x)
       \<and> (\<forall>x\<in>set objs. set (columns (frame (gemini_data_extractor ext p c))) = set (keys x))
       \<and> records (frame (gemini_data_extractor ext p c))
           = map (\<lambda>x. map (map_of (items x)) (columns (frame (gemini_data_extractor ext p c)))) objs
       \<and> errors_shown (gemini_data_extractor ext p c) = []"
proof -
  let ?R = "gemini_data_extractor ext p c"
  let ?cols = "first_seen (concat (map keys objs))"
  from gen parse flat have e: "?R =
           \<lparr>frame = \<lparr>columns = ?cols, records = map (\<lambda>x. map (map_of (items x)) ?cols) objs\<rparr>,
            errors_shown = [],
            requests_sent = [[Text system_prompt, Text p, c]]\<rparr>"
    by (rule extractor_objects)
  have c: "columns (frame ?R) = ?cols" by (simp add: e)
  have r: "records (frame ?R) = map (\<lambda>x. map (map_of (items x)) ?cols) objs" by (simp add: e)
  have s: "errors_shown ?R = []" by (simp add: e)
  have k: "?cols = (case objs of [] \<Rightarrow> [] | x # xs \<Rightarrow> keys x)"
    using same dict by (rule consistent_columns)
  have u: "\<forall>x\<in>set objs. set ?cols = set (keys x)"
  proof
    fix x assume x: "x \<in> set objs"
    have "set ?cols = (\<Union>y\<in>set objs. set (keys y))"
      by (simp add: set_first_seen)
    also have "\<dots> = set (keys x)"
      using same x by blast
    finally show "set ?cols = set (keys x)" .
  qed
  have l: "length (records (frame ?R)) = length objs" by (simp add: r)
  have r': "records (frame ?R) = map (\<lambda>x. map (map_of (items x)) (columns (frame ?R))) objs"
    by (simp only: r c)
  have c': "columns (frame ?R) = (case objs of [] \<Rightarrow> [] | x # xs \<Rightarrow> keys x)"
    by (simp only: c k)
  have u': "\<forall>x\<in>set objs. set (columns (frame ?R)) = set (keys x)"
    using u by (simp only: c)
  from l c' u' r' s show ?thesis by blast
qed

theorem consistent_records_table_witness:
  "columns (frame (gemini_data_extractor (sample_ext ''[{\"A\":1,\"B\":2},{\"B\":3,\"A\":4}]'') ''hint'' (Text ''page'')))
     = [''A'', ''B'']
   \<and> records (frame (gemini_data_extractor (sample_ext ''[{\"A\":1,\"B\":2},{\"B\":3,\"A\":4}]'') ''hint'' (Text ''page'')))
     = [[Some (JInt 1), Some (JInt 2)], [Some (JInt 4), Some (JInt 3)]]
   \<and> length (records (frame (gemini_data_extractor (sample_ext ''[{\"A\":1,\"B\":2},{\"B\":3,\"A\":4}]'') ''hint'' (Text ''page'')))) = 2"
proof -
  let ?r = "''[{\"A\":1,\"B\":2},{\"B\":3,\"A\":4}]''"
  let ?objs = "[JObject [(''A'', JInt 1), (''B'', JInt 2)], JObject [(''B'', JInt 3), (''A'', JInt 4)]]"
  have g: "generate_content (sample_ext ?r) [Text system_prompt, Text ''hint'', Text ''page''] = Inr ?r"
    by (rule sample_generates)
  have p: "json_loads (sample_ext ?r) (clean_json_string ?r) = Inr (JArray ?objs)"
    by (simp only: swapped_cleaned swapped_loads)
  have f: "list_all is_object ?objs"
    by (simp add: is_object_def)
  have k1: "keys (JObject [(''A'', JInt 1), (''B'', JInt 2)]) = [''A'', ''B'']"
    by (simp add: keys_def items_def)
  have k2: "keys (JObject [(''B'', JInt 3), (''A'', JInt 4)]) = [''B'', ''A'']"
    by (simp add: keys_def items_def)
  have s: "\<forall>x\<in>set ?objs. \<forall>y\<in>set ?objs. set (keys x) = set (keys y)"
    by (simp add: k1 k2 insert_commute)
  have d: "\<forall>x\<in>set ?objs. distinct (keys x)"
    by (simp add: keys_def items_def)
  from consistent_records_table [OF g p f s d] show ?thesis
    by (simp add: keys_def items_def)
qed

text \<open>
  Claim C4. When the cleaned reply parses to an array of one or more objects, whatever
  their keys, the columns of the table are the keys of all objects, each once, in the
  order in which they are first seen; and the cell of a record under a column is the
  value the object has for that key, and the missing value \<open>None\<close> when the object has no
  such key. No message is shown: a missing key is not an error. For the reply
  \<open>[{"A":1},{"A":2,"B":"x"}]\<close> the columns are \<open>A\<close> and \<open>B\<close>, and the first record has
  no value under \<open>B\<close>.
\<close>

theorem differing_keys_union_columns:
  assumes gen: "generate_content ext [Text system_prompt, Text p, c] = Inr reply"
      and parse: "json_loads ext (clean_json_string reply) = Inr (JArray objs)"
      and flat: "list_all is_object objs"
      and some: "objs \<noteq> []"
  shows "columns (frame (gemini_data_extractor ext p c)) = first_seen (concat (map keys objs))
       \<and> set (columns (frame (gemini_data_extractor ext p c))) = (\<Union>x\<in>set objs. set (keys x))
       \<and> distinct (columns (frame (gemini_data_extractor ext p c)))
       \<and> length (records (frame (gemini_data_extractor ext p c))) = length objs
       \<and> (\<forall>i<length objs. \<forall>j<length (columns (frame (gemini_data_extractor ext p c))).
            records (frame (gemini_data_extractor ext p c)) ! i ! j
              = map_of (items (objs ! i)) (columns (frame (gemini_data_extractor ext p c)) ! j)
            \<and> (columns (frame (gemini_data_extractor ext p c)) ! j \<notin> set (keys (objs ! i))
                 \<longrightarrow> records (frame (gemini_data_extractor ext p c)) ! i ! j = None))
       \<and> errors_shown (gemini_data_extractor ext p c) = []"
proof -
  let ?R = "gemini_data_extractor ext p c"
  let ?cols = "first_seen (concat (map keys objs))"
  from gen parse flat have e: "?R =
           \<lparr>frame = \<lparr>columns = ?cols, records = map (\<lambda>x. map (map_of (items x)) ?cols) objs\<rparr>,
            errors_shown = [],
            requests_sent = [[Text system_prompt, Text p, c]]\<rparr>"
    by (rule extractor_objects)
  have c: "columns (frame ?R) = ?cols" by (simp add: e)
  have r: "records (frame ?R) = map (\<lambda>x. map (map_of (items x)) ?cols) objs" by (simp add: e)
  have s: "errors_shown ?R = []" by (simp add: e)
  have u: "set (columns (frame ?R)) = (\<Union>x\<in>set objs. set (keys x))"
    by (simp add: c set_first_seen)
  have d: "distinct (columns (frame ?R))"
    by (simp only: c distinct_first_seen)
  have l: "length (records (frame ?R)) = length objs" by (simp add: r)
  have m: "\<forall>i<length objs. \<forall>j<length (columns (frame ?R)).
            records (frame ?R) ! i ! j = map_of (items (objs ! i)) (columns (frame ?R) ! j)
            \<and> (columns (frame ?R) ! j \<notin> set (keys (objs ! i))
                 \<longrightarrow> records (frame ?R) ! i ! j = None)"
  proof (intro allI impI)
    fix i j assume i: "i < length objs" and j: "j < length (columns (frame ?R))"
    from j have j': "j < length ?cols" by (simp only: c)
    from i j' have v: "records (frame ?R) ! i ! j = map_of (items (objs ! i)) (?cols ! j)"
      by (simp add: r)
    have n: "?cols ! j \<notin> set (keys (objs ! i)) \<longrightarrow> map_of (items (objs ! i)) (?cols ! j) = None"
      by (simp add: keys_def map_of_eq_None_iff)
    from v n show "records (frame ?R) ! i ! j = map_of (items (objs ! i)) (columns (frame ?R) ! j)
            \<and> (columns (frame ?R) ! j \<notin> set (keys (objs ! i))
                 \<longrightarrow> records (frame ?R) ! i ! j = None)"
      by (simp only: c)
  qed
  from c u d l m s show ?thesis by blast
qed

theorem differing_keys_union_columns_witness:
  "columns (frame (gemini_data_extractor (sample_ext two_records) ''hint'' (Text ''page''))) = [''A'', ''B'']
   \<and> records (frame (gemini_data_extractor (sample_ext two_records) ''hint'' (Text ''page''))) ! 0 ! 1 = None
   \<and> records (frame (gemini_data_extractor (sample_ext two_records) ''hint'' (Text ''page''))) ! 1 ! 1
       = Some (JString ''x'')
   \<and> length (records (frame (gemini_data_extractor (sample_ext two_records) ''hint'' (Text ''page'')))) = 2
   \<and> errors_shown (gemini_data_extractor (sample_ext two_records) ''hint'' (Text ''page'')) = []"
proof -
  let ?objs = "[JObject [(''A'', JInt 1)], JObject [(''A'', JInt 2), (''B'', JString ''x'')]]"
  have g: "generate_content (sample_ext two_records) [Text system_prompt, Text ''hint'', Text ''page'']
             = Inr two_records"
    by (rule sample_generates)
  have p: "json_loads (sample_ext two_records) (clean_json_string two_records) = Inr (JArray ?objs)"
    by (simp only: sample_two_records_cleaned two_records_loads)
  have f: "list_all is_object ?objs"
    by (simp add: is_object_def)
  have n: "?objs \<noteq> []"
    by simp
  from differing_keys_union_columns [OF g p f n] show ?thesis
    by (simp add: keys_def items_def)
qed

section \<open>Fences inside the reply\<close>

lemma replace_skip_prefix:
  assumes "old \<noteq> []" "hd old \<notin> set a"
  shows "replace old new (a @ s) = a @ replace old new s"
  using assms(2)
proof (induction a)
  case Nil
  then show ?case by simp
next
  case (Cons x xs)
  from Cons.prems have x: "x \<noteq> hd old" by auto
  have "\<not> prefix old (x # (xs @ s))"
  proof
    assume "prefix old (x # (xs @ s))"
    with assms(1) have "hd old = x" by (cases old) simp_all
    with x show False by simp
  qed
  with assms(1) have "replace old new (x # (xs @ s)) = x # replace old new (xs @ s)"
    by (rule replace_skip)
  moreover from Cons have "replace old new (xs @ s) = xs @ replace old new s" by simp
  ultimately show ?case by simp
qed

lemma no_backtick_no_fence:
  assumes "CHR 0x60 \<notin> set s"
  shows "\<not> sublist fence s"
proof
  assume "sublist fence s"
  then have "set fence \<subseteq> set s" by (rule set_mono_sublist)
  with assms show False by (simp add: fence_def)
qed

lemma clean_alters_fenced_text:
  assumes "sublist fence s"
  shows "clean_json_string s \<noteq> s"
proof
  assume "clean_json_string s = s"
  then have "sublist fence (clean_json_string s)" using assms by simp
  with clean_no_fence show False by blast
qed

lemma head_absent_no_sublist:
  assumes "old \<noteq> []" "hd old \<notin> set p"
  shows "\<not> sublist old p"
proof
  assume "sublist old p"
  then have "set old \<subseteq> set p" by (rule set_mono_sublist)
  moreover from assms(1) have "hd old \<in> set old" by simp
  ultimately show False using assms(2) by blast
qed

lemma replace_joined:
  assumes "old \<noteq> []" "\<forall>p\<in>set ps. hd old \<notin> set p"
  shows "replace old [] (joined old ps) = concat ps"
  using assms(2)
proof (induction ps rule: induct_list012)
  case 1
  then show ?case by simp
next
  case (2 p)
  then have "\<not> sublist old p"
    using head_absent_no_sublist [OF assms(1)] by simp
  with assms(1) have "replace old [] p = p" by (rule replace_absent)
  then show ?case by simp
next
  case (3 p q ps)
  from "3.prems" have p: "hd old \<notin> set p" by simp
  from "3.prems" have ih: "replace old [] (joined old (q # ps)) = concat (q # ps)"
    using "3.IH"(2) by simp
  from assms(1) p
  have "replace old [] (p @ old @ joined old (q # ps)) = p @ replace old [] (old @ joined old (q # ps))"
    by (rule replace_skip_prefix)
  moreover have "replace old [] (old @ joined old (q # ps)) = replace old [] (joined old (q # ps))"
    using replace_match [OF assms(1), of "old @ joined old (q # ps)" "[]"] by simp
  ultimately show ?case using ih by simp
qed

lemma json_prefix_before_backtick:
  assumes "\<not> prefix ''json'' q"
  shows "\<not> prefix ''json'' (q @ CHR 0x60 # w)"
proof
  assume "prefix ''json'' (q @ CHR 0x60 # w)"
  then consider "prefix ''json'' q" | us where "''json'' = q @ us" "prefix us (CHR 0x60 # w)"
    by (auto simp: prefix_append)
  then show False
  proof cases
    case 1
    with assms show False by simp
  next
    case 2
    show False
    proof (cases us)
      case Nil
      with 2 assms show False by simp
    next
      case (Cons u us')
      with 2(2) have "u = CHR 0x60" by simp
      with Cons have "CHR 0x60 \<in> set (q @ us)" by simp
      then have "CHR 0x60 \<in> set ''json''" by (simp only: 2(1))
      then show False by simp
    qed
  qed
qed

lemma joined_fence_shape:
  assumes "\<forall>p\<in>set ps. CHR 0x60 \<notin> set p"
  shows "joined fence ps = [] \<or> hd (joined fence ps) \<noteq> CHR 0x60 \<or> prefix fence (joined fence ps)"
proof (cases "(fence, ps)" rule: joined.cases)
  case (1 sep)
  then show ?thesis by simp
next
  case (2 sep p)
  with assms show ?thesis by (cases p) auto
next
  case (3 sep p q qs)
  with assms show ?thesis by (cases p) auto
qed

lemma joined_fence_no_json_prefix:
  assumes "\<not> prefix ''json'' q"
  shows "\<not> prefix ''json'' (joined fence (q # ps))"
proof (cases ps)
  case Nil
  with assms show ?thesis by simp
next
  case (Cons r rs)
  have "\<not> prefix ''json'' (q @ CHR 0x60 # ([CHR 0x60, CHR 0x60] @ joined fence (r # rs)))"
    using assms by (rule json_prefix_before_backtick)
  with Cons show ?thesis by (simp add: fence_def)
qed

lemma sublist_after_prefix:
  assumes "old \<noteq> []" "hd old \<notin> set p" "sublist old (p @ t)"
  shows "sublist old t"
  using assms(2,3)
proof (induction p)
  case Nil
  then show ?case by simp
next
  case (Cons x xs)
  from Cons.prems(1) have x: "x \<noteq> hd old" by auto
  have "\<not> prefix old (x # (xs @ t))"
  proof
    assume "prefix old (x # (xs @ t))"
    with assms(1) have "hd old = x" by (cases old) simp_all
    with x show False by simp
  qed
  with Cons.prems(2) have "sublist old (xs @ t)"
    by (simp add: sublist_Cons_right)
  with Cons show ?case by simp
qed

lemma fence_json_absent_from_joined:
  assumes "\<forall>p\<in>set ps. CHR 0x60 \<notin> set p" "\<forall>p\<in>set (tl ps). \<not> prefix ''json'' p"
  shows "\<not> sublist fence_json (joined fence ps)"
  using assms
proof (induction ps rule: induct_list012)
  case 1
  then show ?case by (simp add: fence_json_def)
next
  case (2 p)
  then have "hd fence_json \<notin> set p" by (simp add: fence_json_def)
  with fence_json_not_Nil have "\<not> sublist fence_json p" by (rule head_absent_no_sublist)
  then show ?case by simp
next
  case (3 p q ps)
  let ?u = "joined fence (q # ps)"
  from "3.prems" have p: "hd fence_json \<notin> set p" by (simp add: fence_json_def)
  from "3.prems" have ih: "\<not> sublist fence_json ?u"
    using "3.IH"(2) by simp
  from "3.prems" have "\<not> prefix ''json'' q" by simp
  then have j: "\<not> prefix ''json'' ?u" by (rule joined_fence_no_json_prefix)
  from "3.prems" have "\<forall>r\<in>set (q # ps). CHR 0x60 \<notin> set r" by simp
  then have h: "?u = [] \<or> hd ?u \<noteq> CHR 0x60 \<or> prefix fence ?u"
    by (rule joined_fence_shape)
  have a: "\<not> prefix fence_json (CHR 0x60 # CHR 0x60 # CHR 0x60 # ?u)"
    using j by (simp add: fence_json_def)
  have b: "\<not> prefix fence_json (CHR 0x60 # CHR 0x60 # ?u)"
    using h by (cases ?u) (auto simp add: fence_json_def fence_def dest: prefix_same_cases)
  have c: "\<not> prefix fence_json (CHR 0x60 # ?u)"
    using h by (cases ?u) (auto simp add: fence_json_def fence_def dest: prefix_same_cases)
  have "\<not> sublist fence_json (fence @ ?u)"
    using a b c ih by (simp add: fence_def sublist_Cons_right)
  then have "\<not> sublist fence_json (p @ fence @ ?u)"
    using sublist_after_prefix [OF fence_json_not_Nil p] by blast
  then show ?case by simp
qed

lemma concat_no_backtick:
  assumes "\<forall>p\<in>set ps. CHR 0x60 \<notin> set p"
  shows "replace fence [] (concat ps) = concat ps"
proof -
  from assms have "CHR 0x60 \<notin> set (concat ps)" by simp
  then have "\<not> sublist fence (concat ps)" by (rule no_backtick_no_fence)
  with fence_not_Nil show ?thesis by (rule replace_absent)
qed

lemma clean_joined_fence_json:
  assumes "\<forall>p\<in>set ps. CHR 0x60 \<notin> set p"
  shows "clean_json_string (joined fence_json ps) = strip (concat ps)"
proof -
  from assms have "\<forall>p\<in>set ps. hd fence_json \<notin> set p" by (simp add: fence_json_def)
  with fence_json_not_Nil have "replace fence_json [] (joined fence_json ps) = concat ps"
    by (rule replace_joined)
  then show ?thesis
    by (simp only: clean_json_string_def concat_no_backtick [OF assms])
qed

lemma clean_joined_fence:
  assumes "\<forall>p\<in>set ps. CHR 0x60 \<notin> set p" "\<forall>p\<in>set (tl ps). \<not> prefix ''json'' p"
  shows "clean_json_string (joined fence ps) = strip (concat ps)"
proof -
  from assms have "\<not> sublist fence_json (joined fence ps)"
    by (rule fence_json_absent_from_joined)
  with fence_json_not_Nil have "replace fence_json [] (joined fence ps) = joined fence ps"
    by (rule replace_absent)
  moreover from assms(1) have "\<forall>p\<in>set ps. hd fence \<notin> set p" by (simp add: fence_def)
  with fence_not_Nil have "replace fence [] (joined fence ps) = concat ps"
    by (rule replace_joined)
  ultimately show ?thesis
    by (simp only: clean_json_string_def)
qed

text \<open>
  Claim C10. Cleaning removes the texts \<open>```json\<close> and \<open>```\<close> wherever they stand in the
  reply, not only at its ends: the cleaned reply contains neither, and a reply that
  contains three backticks in a row is never left as it is. When texts without backticks
  are joined by fences, however many, cleaning gives these texts put together and
  stripped (for the fence \<open>```\<close>, when no text after a fence begins with \<open>json\<close>). The parser
  is given the cleaned reply only, so a string value of the reply that contains a fence is
  altered before it is parsed.
\<close>

theorem cleaning_removes_every_fence:
  "\<not> sublist fence (clean_json_string s)
   \<and> \<not> sublist fence_json (clean_json_string s)
   \<and> (sublist fence s \<longrightarrow> clean_json_string s \<noteq> s)
   \<and> ((\<forall>p\<in>set ps. CHR 0x60 \<notin> set p) \<longrightarrow>
        clean_json_string (joined fence_json ps) = strip (concat ps))
   \<and> ((\<forall>p\<in>set ps. CHR 0x60 \<notin> set p) \<and> (\<forall>p\<in>set (tl ps). \<not> prefix ''json'' p) \<longrightarrow>
        clean_json_string (joined fence ps) = strip (concat ps))
   \<and> gemini_data_extractor (ext\<lparr>generate_content := (\<lambda>parts. Inr s)\<rparr>) p c
     = gemini_data_extractor (ext\<lparr>generate_content := (\<lambda>parts. Inr (clean_json_string s))\<rparr>) p c"
proof -
  have 1: "\<not> sublist fence (clean_json_string s)"
    by (rule clean_no_fence)
  then have 2: "\<not> sublist fence_json (clean_json_string s)"
    using sublist_fence_json by blast
  have 3: "sublist fence s \<longrightarrow> clean_json_string s \<noteq> s"
    using clean_alters_fenced_text by blast
  have 4: "(\<forall>p\<in>set ps. CHR 0x60 \<notin> set p) \<longrightarrow>
        clean_json_string (joined fence_json ps) = strip (concat ps)"
    using clean_joined_fence_json by blast
  have 5: "(\<forall>p\<in>set ps. CHR 0x60 \<notin> set p) \<and> (\<forall>p\<in>set (tl ps). \<not> prefix ''json'' p) \<longrightarrow>
        clean_json_string (joined fence ps) = strip (concat ps)"
    using clean_joined_fence by blast
  have "clean_json_string s = clean_json_string (clean_json_string s)"
    by (simp only: clean_idem)
  then have 6: "gemini_data_extractor (ext\<lparr>generate_content := (\<lambda>parts. Inr s)\<rparr>) p c
     = gemini_data_extractor (ext\<lparr>generate_content := (\<lambda>parts. Inr (clean_json_string s))\<rparr>) p c"
    by (rule extractor_depends_on_cleaned_reply)
  from 1 2 3 4 5 6 show ?thesis by blast
qed

theorem cleaning_removes_every_fence_witness:
  "clean_json_string ''[{\"note\":\"use ```code``` here\"}]'' = ''[{\"note\":\"use code here\"}]''
   \<and> clean_json_string ''[{\"note\":\"use ```jsoncode```json here\"}]'' = ''[{\"note\":\"use code here\"}]''
   \<and> clean_json_string ''[{\"note\":\"use ```code``` here\"}]'' \<noteq> ''[{\"note\":\"use ```code``` here\"}]''"
proof -
  let ?ps = "[''[{\"note\":\"use '', ''code'', '' here\"}]'']"
  have a: "\<forall>p\<in>set ?ps. CHR 0x60 \<notin> set p" by simp
  have j: "\<forall>p\<in>set (tl ?ps). \<not> prefix ''json'' p" by simp
  have e1: "''[{\"note\":\"use ```jsoncode```json here\"}]'' = joined fence_json ?ps"
    by (simp add: fence_json_def)
  have e2: "''[{\"note\":\"use ```code``` here\"}]'' = joined fence ?ps"
    by (simp add: fence_def)
  have f: "sublist fence (joined fence ?ps)" by (simp add: fence_def sublist_Cons_right)
  have s: "strip (concat ?ps) = ''[{\"note\":\"use code here\"}]''"
    by (simp add: strip_def isspace_def)
  from cleaning_removes_every_fence [where s = "joined fence ?ps" and ps = ?ps] a j f
  have "clean_json_string (joined fence_json ?ps) = strip (concat ?ps)
      \<and> clean_json_string (joined fence ?ps) = strip (concat ?ps)
      \<and> clean_json_string (joined fence ?ps) \<noteq> joined fence ?ps"
    by blast
  from this [unfolded s] show ?thesis
    unfolding e1 e2 by blast
qed

section \<open>Replies that do not parse\<close>

lemma truncated_cleaned:
  "clean_json_string ''```json\<newline>[{\"A\":1},\<newline>```'' = ''[{\"A\":1},''"
  by (simp add: clean_json_string_def fence_def fence_json_def strip_def isspace_def)

lemma truncated_loads:
  "json_loads (sample_ext r) ''[{\"A\":1},'' = Inl ''Expecting value: line 1 column 10 (char 9)''"
  by (simp add: sample_ext_def sample_loads_def two_records_def)

lemma not_a_number_cleaned: "clean_json_string ''[{\"A\":NaN}]'' = ''[{\"A\":NaN}]''"
  by (simp add: clean_json_string_def fence_def fence_json_def strip_def isspace_def)

lemma not_a_number_loads:
  "json_loads (sample_ext r) ''[{\"A\":NaN}]'' = Inr (JArray [JObject [(''A'', JFloat NaN)]])"
  by (simp add: sample_ext_def sample_loads_def two_records_def)

text \<open>
  Claim C2. When the model answers and \<open>json.loads\<close> rejects the cleaned reply (a truncated
  array, a trailing comma), the extractor raises nothing and recovers nothing: it shows
  the one message \<open>AI Extraction Failed:\<close> followed by the message of the parser, returns
  the empty table, and has sent the one request.
\<close>

theorem rejected_reply_fails:
  assumes gen: "generate_content ext [Text system_prompt, Text p, c] = Inr reply"
      and bad: "json_loads ext (clean_json_string reply) = Inl msg"
  shows "gemini_data_extractor ext p c =
           \<lparr>frame = empty_frame,
            errors_shown = [''AI Extraction Failed: '' @ msg],
            requests_sent = [[Text system_prompt, Text p, c]]\<rparr>"
  using assms by (simp add: gemini_data_extractor_def failed_def)

theorem rejected_reply_fails_witness:
  "gemini_data_extractor (sample_ext ''```json\<newline>[{\"A\":1},\<newline>```'') ''hint'' (Text ''page'') =
     \<lparr>frame = \<lparr>columns = [], records = []\<rparr>,
      errors_shown = [''AI Extraction Failed: Expecting value: line 1 column 10 (char 9)''],
      requests_sent = [[Text system_prompt, Text ''hint'', Text ''page'']]\<rparr>"
proof -
  let ?r = "''```json\<newline>[{\"A\":1},\<newline>```''"
  have g: "generate_content (sample_ext ?r) [Text system_prompt, Text ''hint'', Text ''page''] = Inr ?r"
    by (rule sample_generates)
  have b: "json_loads (sample_ext ?r) (clean_json_string ?r)
             = Inl ''Expecting value: line 1 column 10 (char 9)''"
    by (simp only: truncated_cleaned truncated_loads)
  from rejected_reply_fails [OF g b] show ?thesis
    by (simp add: empty_frame_def)
qed

text \<open>
  Claim C2 speaks of every text that is not valid JSON. \<open>json.loads\<close> accepts more than
  JSON: the literals \<open>NaN\<close>, \<open>Infinity\<close> and \<open>-Infinity\<close>, which the JSON grammar does not
  have, are parsed as floats. The reply \<open>[{"A":NaN}]\<close> is not valid JSON, and the extractor
  returns a table of one record for it and shows no message.
\<close>

theorem invalid_reply_accepted:
  "gemini_data_extractor (sample_ext ''[{\"A\":NaN}]'') ''hint'' (Text ''page'') =
     \<lparr>frame = \<lparr>columns = [''A''], records = [[Some (JFloat NaN)]]\<rparr>,
      errors_shown = [],
      requests_sent = [[Text system_prompt, Text ''hint'', Text ''page'']]\<rparr>"
  by (simp add: gemini_data_extractor_def Let_def sample_generates not_a_number_cleaned
        not_a_number_loads DataFrame_def is_object_def keys_def items_def)

section \<open>Failure and the empty array\<close>

text \<open>
  Claim C9. An extraction that fails (the model call, the parser or the table constructor
  raises) and an extraction whose reply parses to the empty array return the same table:
  the empty one, with no columns and no records. The dashboard guard shows the landing
  state for both. They differ only in the message shown: one for the failure, none for
  the empty array.
\<close>

theorem failure_and_empty_array_alike:
  assumes fails: "generate_content ext [Text system_prompt, Text p, c] = Inl e
                \<or> (\<exists>reply. generate_content ext [Text system_prompt, Text p, c] = Inr reply
                      \<and> (json_loads ext (clean_json_string reply) = Inl e
                         \<or> (\<exists>data. json_loads ext (clean_json_string reply) = Inr data
                               \<and> DataFrame (frame_of_other ext) data = Inl e)))"
      and none: "generate_content ext' [Text system_prompt, Text p', c'] = Inr reply'"
                "json_loads ext' (clean_json_string reply') = Inr (JArray [])"
  shows "frame (gemini_data_extractor ext p c) = frame (gemini_data_extractor ext' p' c')
       \<and> frame (gemini_data_extractor ext p c) = \<lparr>columns = [], records = []\<rparr>
       \<and> dashboard (Some (frame (gemini_data_extractor ext p c))) = Landing
       \<and> dashboard (Some (frame (gemini_data_extractor ext' p' c'))) = Landing
       \<and> errors_shown (gemini_data_extractor ext p c) = [''AI Extraction Failed: '' @ e]
       \<and> errors_shown (gemini_data_extractor ext' p' c') = []"
proof -
  from fails have f: "gemini_data_extractor ext p c = failed [Text system_prompt, Text p, c] e"
    by (auto simp add: gemini_data_extractor_def)
  from none have n: "gemini_data_extractor ext' p' c' =
      \<lparr>frame = empty_frame, errors_shown = [], requests_sent = [[Text system_prompt, Text p', c']]\<rparr>"
    by (simp add: gemini_data_extractor_def DataFrame_def)
  show ?thesis
    by (simp add: f n failed_def empty_frame_def dashboard_def empty_def)
qed

theorem failure_and_empty_array_alike_witness:
  "frame (gemini_data_extractor (sample_ext ''[{\"A\":1},'') ''hint'' (Text ''page''))
     = frame (gemini_data_extractor (sample_ext ''[]'') ''hint'' (Text ''page''))
   \<and> dashboard (Some (frame (gemini_data_extractor (sample_ext ''[{\"A\":1},'') ''hint'' (Text ''page'')))) = Landing
   \<and> dashboard (Some (frame (gemini_data_extractor (sample_ext ''[]'') ''hint'' (Text ''page'')))) = Landing
   \<and> errors_shown (gemini_data_extractor (sample_ext ''[{\"A\":1},'') ''hint'' (Text ''page''))
     = [''AI Extraction Failed: Expecting value: line 1 column 10 (char 9)'']
   \<and> errors_shown (gemini_data_extractor (sample_ext ''[]'') ''hint'' (Text ''page'')) = []"
proof -
  let ?e = "''Expecting value: line 1 column 10 (char 9)''"
  have c1: "clean_json_string ''[{\"A\":1},'' = ''[{\"A\":1},''"
    by (simp add: clean_json_string_def fence_def fence_json_def strip_def isspace_def)
  have c2: "clean_json_string ''[]'' = ''[]''"
    by (simp add: clean_json_string_def fence_def fence_json_def strip_def isspace_def)
  have f: "generate_content (sample_ext ''[{\"A\":1},'') [Text system_prompt, Text ''hint'', Text ''page''] = Inl ?e
         \<or> (\<exists>reply. generate_content (sample_ext ''[{\"A\":1},'') [Text system_prompt, Text ''hint'', Text ''page''] = Inr reply
                      \<and> (json_loads (sample_ext ''[{\"A\":1},'') (clean_json_string reply) = Inl ?e
                         \<or> (\<exists>data. json_loads (sample_ext ''[{\"A\":1},'') (clean_json_string reply) = Inr data
                               \<and> DataFrame (frame_of_other (sample_ext ''[{\"A\":1},'')) data = Inl ?e)))"
    by (simp add: sample_generates c1 truncated_loads)
  have g: "generate_content (sample_ext ''[]'') [Text system_prompt, Text ''hint'', Text ''page''] = Inr ''[]''"
    by (rule sample_generates)
  have l: "json_loads (sample_ext ''[]'') (clean_json_string ''[]'') = Inr (JArray [])"
    by (simp add: c2) (simp add: sample_ext_def sample_loads_def)
  from failure_and_empty_array_alike [OF f g l] show ?thesis
    by simp
qed

section \<open>The requests sent to the model\<close>









section \<open>The API key\<close>







section \<open>Scraping a page\<close>

lemma url_mode_never_raises:
  assumes "input_mode w = WebsiteURL"
  shows "\<exists>s. sidebar ext w = Inr s"
  using assms by (simp add: sidebar_def)


text \<open>
  Claim C6. When \<open>requests.get\<close> raises (a network failure, an unreachable host), or the
  text extraction raises, \<open>scrape_url\<close> raises nothing: it returns the text
  \<open>Error scraping URL:\<close> followed by the message of the exception. When neither raises it
  returns the extracted text, cut to 10000 characters, whatever the status of the
  response. The sidebar does not raise in the Website URL mode.
\<close>

theorem raised_fetch_is_reported:
  "(requests_get ext url = Inl e \<longrightarrow> scrape_url ext url = ''Error scraping URL: '' @ e)
   \<and> (requests_get ext url = Inr page \<and> get_text ext (content page) = Inl e \<longrightarrow>
        scrape_url ext url = ''Error scraping URL: '' @ e)
   \<and> (requests_get ext url = Inr page \<and> get_text ext (content page) = Inr t \<longrightarrow>
        scrape_url ext url = take 10000 t)
   \<and> (input_mode w = WebsiteURL \<longrightarrow> (\<exists>s. sidebar ext w = Inr s))"
  using url_mode_never_raises [of w ext]
  by (simp add: scrape_url_def)

theorem raised_fetch_is_reported_witness:
  "scrape_url (sample_ext ''[]'') ''http://example.com/missing''
     = ''Error scraping URL: Connection refused''
   \<and> (\<exists>s. sidebar (sample_ext ''[]'') url_run = Inr s)"
proof -
  have r: "requests_get (sample_ext ''[]'') ''http://example.com/missing'' = Inl ''Connection refused''"
    by (simp add: sample_ext_def)
  have m: "input_mode url_run = WebsiteURL"
    by (simp add: url_run_def)
  from raised_fetch_is_reported [where ext = "sample_ext ''[]''" and url = "''http://example.com/missing''"
         and e = "''Connection refused''" and w = url_run] r m
  show ?thesis by simp
qed

text \<open>
  Claim C6 counts an HTTP failure among the failed fetches. \<open>requests.get\<close> does not raise
  on an error status, and the script does not look at the status: a response with status
  404 and an empty body is scraped like a page, and the result is the empty text, not a
  description of an error.
\<close>

theorem error_status_is_not_reported:
  "fetch_fails (requests_get not_found_site ''http://example.com/missing'')
   \<and> scrape_url not_found_site ''http://example.com/missing'' = []
   \<and> \<not> prefix ''Error scraping URL: '' (scrape_url not_found_site ''http://example.com/missing'')"
  by (simp add: fetch_fails_def not_found_site_def scrape_url_def sample_ext_def sample_get_text_def)




end
